theory Spec2Isabelle
  imports Complex_Main
begin

section \<open>The gamepad hook: data model\<close>

text \<open>
  The hook \<open>useGamepad\<close> of \<open>src/src/useGamepad.js\<close> keeps four pieces of React state
  (\<open>gamepads\<close>, \<open>buttonStates\<close>, \<open>axisStates\<close>, \<open>isGamepadConnected\<close>) and one mutable
  ref (\<open>prevTimestamps\<close>). Every state update of the source is a functional updater or a
  plain replacement, and all callbacks run on one thread, so the hook is modelled by
  explicit state passing over a record.

  JavaScript numbers are modelled by the rationals they denote. Comparison, negation and
  \<open>Math.abs\<close> are exact on those; \<open>toFixed(4)\<close> is the exact decimal rounding of the
  standard, and \<open>parseFloat\<close> of its result is taken to be that decimal itself (the
  source gets the nearest double). \<open>NaN\<close> and the infinities are outside the model.

  A JavaScript object whose keys are array indices enumerates them in ascending numeric
  order, whatever the order of insertion. Such an object is modelled by an association
  list kept in strictly ascending key order (\<open>obj_wf\<close>); \<open>obj_set\<close> is the assignment
  \<open>o[k] = v\<close> (also the spread \<open>{...prev, [k]: v}\<close>), \<open>obj_delete\<close> is \<open>delete o[k]\<close>,
  and \<open>obj_get\<close> is the property read, \<open>None\<close> standing for \<open>undefined\<close>.
\<close>

type_synonym 'v obj = "(nat \<times> 'v) list"

definition obj_wf :: "'v obj \<Rightarrow> bool" where
  "obj_wf m = sorted_wrt (<) (map fst m)"

definition obj_get :: "'v obj \<Rightarrow> nat \<Rightarrow> 'v option" where
  "obj_get m k = map_of m k"

fun obj_set :: "nat \<Rightarrow> 'v \<Rightarrow> 'v obj \<Rightarrow> 'v obj" where
  "obj_set k v [] = [(k, v)]"
| "obj_set k v (p # ps) =
     (if k < fst p then (k, v) # p # ps
      else if k = fst p then (k, v) # ps
      else p # obj_set k v ps)"

definition obj_delete :: "nat \<Rightarrow> 'v obj \<Rightarrow> 'v obj" where
  "obj_delete k m = filter (\<lambda>p. fst p \<noteq> k) m"

definition obj_keys :: "'v obj \<Rightarrow> nat list" where
  "obj_keys m = map fst m"

definition obj_values :: "'v obj \<Rightarrow> 'v list" where
  "obj_values m = map snd m"

text \<open>A \<open>GamepadButton\<close> and a \<open>Gamepad\<close> snapshot of the host, with the fields the hook reads.\<close>

record button =
  pressed :: bool
  value' :: rat
  touched :: bool

record gamepad =
  index :: nat
  id' :: string
  timestamp :: rat
  buttons :: "button list"
  axes :: "rat list"

text \<open>
  The host: \<open>navigator.getGamepads\<close> may be missing (\<open>None\<close>); when present it returns an
  array of slots, \<open>null\<close> for an empty slot.
\<close>

type_synonym host = "gamepad option list option"

definition getGamepads :: "host \<Rightarrow> gamepad option list" where
  "getGamepads h = (case h of None \<Rightarrow> [] | Some slots \<Rightarrow> slots)"

record store =
  gamepads :: "gamepad obj"
  buttonStates :: "button obj obj"
  axisStates :: "rat obj obj"
  isGamepadConnected :: bool
  prevTimestamps :: "rat obj"

definition initialStore :: store where
  "initialStore = \<lparr>gamepads = [], buttonStates = [], axisStates = [],
     isGamepadConnected = False, prevTimestamps = []\<rparr>"

section \<open>The state normalizer\<close>

text \<open>
  \<open>Number.prototype.toFixed(4)\<close>: the sign is split off, and of the integers \<open>n\<close> with
  \<open>n / 10^4\<close> nearest to the magnitude the larger is taken.
\<close>

definition toFixed4 :: "rat \<Rightarrow> rat" where
  "toFixed4 x =
     (if x < 0 then - (of_int \<lfloor>(- x) * 10000 + 1 / 2\<rfloor> / 10000)
      else of_int \<lfloor>x * 10000 + 1 / 2\<rfloor> / 10000)"

definition padButtons :: "button list \<Rightarrow> button obj" where
  "padButtons bs =
     enumerate 0 (map (\<lambda>b. \<lparr>pressed = pressed b, value' = value' b, touched = touched b\<rparr>) bs)"

definition padAxes :: "rat \<Rightarrow> rat list \<Rightarrow> rat obj" where
  "padAxes deadzone as =
     enumerate 0 (map (\<lambda>axisValue. if \<bar>axisValue\<bar> > deadzone then toFixed4 axisValue else 0) as)"

section \<open>The poller\<close>

text \<open>The body of the loop of \<open>checkGamepadInputs\<close> for one present device.\<close>

definition changed :: "store \<Rightarrow> gamepad \<Rightarrow> bool" where
  "changed st g =
     (timestamp g \<noteq> 0 \<and> Some (timestamp g) \<noteq> obj_get (prevTimestamps st) (index g))"

definition pollGamepad :: "rat \<Rightarrow> store \<Rightarrow> gamepad \<Rightarrow> store" where
  "pollGamepad deadzone st g =
     (if changed st g
      then st\<lparr>prevTimestamps := obj_set (index g) (timestamp g) (prevTimestamps st),
              buttonStates := obj_set (index g) (padButtons (buttons g)) (buttonStates st),
              axisStates := obj_set (index g) (padAxes deadzone (axes g)) (axisStates st)\<rparr>
      else st)"

fun pollLoop :: "rat \<Rightarrow> gamepad option list \<Rightarrow> store \<Rightarrow> store" where
  "pollLoop deadzone [] st = st"
| "pollLoop deadzone (None # slots) st = pollLoop deadzone slots st"
| "pollLoop deadzone (Some g # slots) st = pollLoop deadzone slots (pollGamepad deadzone st g)"

definition checkGamepadInputs :: "rat \<Rightarrow> host \<Rightarrow> store \<Rightarrow> store" where
  "checkGamepadInputs deadzone h st = pollLoop deadzone (getGamepads h) st"

section \<open>The connection tracker\<close>

definition handleGamepadConnected :: "gamepad \<Rightarrow> store \<Rightarrow> store" where
  "handleGamepadConnected g st =
     st\<lparr>gamepads := obj_set (index g) g (gamepads st),
        prevTimestamps := obj_set (index g) 0 (prevTimestamps st),
        isGamepadConnected := True\<rparr>"

definition handleGamepadDisconnected :: "host \<Rightarrow> gamepad \<Rightarrow> store \<Rightarrow> store" where
  "handleGamepadDisconnected h g st =
     st\<lparr>gamepads := obj_delete (index g) (gamepads st),
        buttonStates := obj_delete (index g) (buttonStates st),
        axisStates := obj_delete (index g) (axisStates st),
        prevTimestamps := obj_delete (index g) (prevTimestamps st),
        isGamepadConnected := list_ex (\<lambda>gp. gp \<noteq> None) (getGamepads h)\<rparr>"

text \<open>
  The scan of the mount effect: the loop collects \<open>connectedPads\<close>, zeroes the stored
  timestamps and raises \<open>hasConnected\<close>; the store is written only when a device was seen.
\<close>

fun scanLoop :: "gamepad option list \<Rightarrow> gamepad obj \<times> rat obj \<times> bool \<Rightarrow> gamepad obj \<times> rat obj \<times> bool"
  where
  "scanLoop [] acc = acc"
| "scanLoop (None # slots) acc = scanLoop slots acc"
| "scanLoop (Some g # slots) (connectedPads, ts, hasConnected) =
     scanLoop slots (obj_set (index g) g connectedPads, obj_set (index g) 0 ts, True)"

definition initialScan :: "host \<Rightarrow> store \<Rightarrow> store" where
  "initialScan h st =
     (case scanLoop (getGamepads h) ([], prevTimestamps st, False) of
        (connectedPads, ts, hasConnected) \<Rightarrow>
          if hasConnected
          then st\<lparr>gamepads := connectedPads, isGamepadConnected := True, prevTimestamps := ts\<rparr>
          else st\<lparr>prevTimestamps := ts\<rparr>)"

section \<open>The query facade\<close>

text \<open>
  Reading a property of \<open>undefined\<close> throws a \<open>TypeError\<close> in the source. Three of the
  queries guard every read with optional chaining; \<open>getAxisValue\<close> reads
  \<open>axisStates[padIndex][axisIndex]\<close> unguarded, so its model has the error branch.
\<close>

datatype error = TypeError

definition isButtonPressed :: "button obj obj \<Rightarrow> nat \<Rightarrow> bool" where
  "isButtonPressed bs buttonIndex =
     list_ex (\<lambda>pb. case obj_get pb buttonIndex of None \<Rightarrow> False | Some b \<Rightarrow> pressed b)
       (obj_values bs)"

definition isButtonPressedOnGamepad :: "button obj obj \<Rightarrow> nat \<Rightarrow> nat \<Rightarrow> bool" where
  "isButtonPressedOnGamepad bs gamepadIndex buttonIndex =
     (case obj_get bs gamepadIndex of
        None \<Rightarrow> False
      | Some pb \<Rightarrow> (case obj_get pb buttonIndex of None \<Rightarrow> False | Some b \<Rightarrow> pressed b \<or> False))"

fun axisLoop :: "rat \<Rightarrow> rat obj obj \<Rightarrow> nat list \<Rightarrow> nat \<Rightarrow> error + rat" where
  "axisLoop deadzone ax [] axisIndex = Inr 0"
| "axisLoop deadzone ax (padIndex # ks) axisIndex =
     (case obj_get ax padIndex of
        None \<Rightarrow> Inl TypeError
      | Some pad \<Rightarrow>
          (case obj_get pad axisIndex of
             None \<Rightarrow> axisLoop deadzone ax ks axisIndex
           | Some v \<Rightarrow>
               if v \<noteq> 0 \<and> \<bar>v\<bar> > deadzone then Inr v
               else axisLoop deadzone ax ks axisIndex))"

definition getAxisValue :: "rat \<Rightarrow> rat obj obj \<Rightarrow> nat \<Rightarrow> error + rat" where
  "getAxisValue deadzone ax axisIndex = axisLoop deadzone ax (obj_keys ax) axisIndex"

definition getAxisValueForGamepad :: "rat obj obj \<Rightarrow> nat \<Rightarrow> nat \<Rightarrow> rat" where
  "getAxisValueForGamepad ax gamepadIndex axisIndex =
     (case obj_get ax gamepadIndex of
        None \<Rightarrow> 0
      | Some pad \<Rightarrow> (case obj_get pad axisIndex of None \<Rightarrow> 0 | Some v \<Rightarrow> if v \<noteq> 0 then v else 0))"

text \<open>
  A slot whose stored value for an axis passes the test of \<open>getAxisValue\<close>: it is there,
  it is not zero and its magnitude exceeds the deadzone.
\<close>

definition axisHit :: "rat \<Rightarrow> rat obj obj \<Rightarrow> nat \<Rightarrow> nat \<Rightarrow> bool" where
  "axisHit deadzone ax axisIndex padIndex =
     (case obj_get ax padIndex of
        None \<Rightarrow> False
      | Some pad \<Rightarrow>
          (case obj_get pad axisIndex of None \<Rightarrow> False | Some v \<Rightarrow> v \<noteq> 0 \<and> \<bar>v\<bar> > deadzone))"

section \<open>The host's array of slots\<close>

text \<open>
  The devices a host array holds, in array order. The host puts the device of slot \<open>i\<close>
  at position \<open>i\<close>, so no two devices of one array share an \<open>index\<close>
  (\<open>distinctSlots\<close>). \<open>stamps\<close> is what change detection reads of an array: the slot and
  the timestamp of every device.
\<close>

fun presentPads :: "gamepad option list \<Rightarrow> gamepad list" where
  "presentPads [] = []"
| "presentPads (None # slots) = presentPads slots"
| "presentPads (Some g # slots) = g # presentPads slots"

definition distinctSlots :: "gamepad option list \<Rightarrow> bool" where
  "distinctSlots slots = distinct (map index (presentPads slots))"

definition stamps :: "gamepad option list \<Rightarrow> (nat \<times> rat) list" where
  "stamps slots = map (\<lambda>g. (index g, timestamp g)) (presentPads slots)"

section \<open>Sessions\<close>

text \<open>
  The stores a session can be in: the mount effect scans the host once, and from then on
  attach events, detach events and poll ticks arrive one at a time, each with the host
  array of its moment. \<open>reachable\<close> puts no condition on those arrays. \<open>tracked\<close> admits a
  poll tick only when every device of its array has an entry in the device set, that is
  when the attach event of a device has been handled before a tick reports the device.
\<close>

inductive reachable :: "rat \<Rightarrow> store \<Rightarrow> bool" for deadzone :: rat where
  mount: "reachable deadzone (initialScan h initialStore)"
| attach: "reachable deadzone st \<Longrightarrow> reachable deadzone (handleGamepadConnected g st)"
| detach: "reachable deadzone st \<Longrightarrow> reachable deadzone (handleGamepadDisconnected h g st)"
| tick: "reachable deadzone st \<Longrightarrow> reachable deadzone (checkGamepadInputs deadzone h st)"

inductive tracked :: "rat \<Rightarrow> store \<Rightarrow> bool" for deadzone :: rat where
  mount: "tracked deadzone (initialScan h initialStore)"
| attach: "tracked deadzone st \<Longrightarrow> tracked deadzone (handleGamepadConnected g st)"
| detach: "tracked deadzone st \<Longrightarrow> tracked deadzone (handleGamepadDisconnected h g st)"
| tick: "tracked deadzone st \<Longrightarrow>
     \<forall>g. Some g \<in> set (getGamepads h) \<longrightarrow> obj_get (gamepads st) (index g) \<noteq> None \<Longrightarrow>
     tracked deadzone (checkGamepadInputs deadzone h st)"

section \<open>Example snapshots\<close>



definition padOne :: gamepad where
  "padOne = \<lparr>index = 0, id' = ''pad-one'', timestamp = 7,
     buttons = [\<lparr>pressed = True, value' = 1, touched = True\<rparr>],
     axes = [1 / 2, 1 / 20, 23456 / 100000, 1 / 10, - 1 / 10]\<rparr>"

definition padTwo :: gamepad where
  "padTwo = \<lparr>index = 1, id' = ''pad-two'', timestamp = 9,
     buttons = [\<lparr>pressed = False, value' = 0, touched = False\<rparr>],
     axes = [1 / 2]\<rparr>"

definition padIdle :: gamepad where
  "padIdle = \<lparr>index = 0, id' = ''pad-idle'', timestamp = 0,
     buttons = [\<lparr>pressed = True, value' = 1, touched = True\<rparr>], axes = [1 / 2]\<rparr>"

definition padOneLater :: gamepad where
  "padOneLater = \<lparr>index = 0, id' = ''pad-one'', timestamp = 7,
     buttons = [\<lparr>pressed = False, value' = 0, touched = False\<rparr>], axes = [- 1]\<rparr>"

section \<open>Objects: reads after writes, and the key order\<close>

lemma obj_get_set: "obj_get (obj_set k v m) j = (if j = k then Some v else obj_get m j)"
  by (induction m) (auto simp: obj_get_def)

lemma obj_get_delete: "obj_get (obj_delete k m) j = (if j = k then None else obj_get m j)"
  by (induction m) (auto simp: obj_get_def obj_delete_def)

lemma obj_keys_set: "set (obj_keys (obj_set k v m)) = insert k (set (obj_keys m))"
  by (induction m) (auto simp: obj_keys_def)

lemma obj_wf_set: "obj_wf m \<Longrightarrow> obj_wf (obj_set k v m)"
proof (induction m)
  case Nil
  show ?case by (simp add: obj_wf_def)
next
  case (Cons p ps)
  have keys: "fst ` set (obj_set k v ps) = insert k (fst ` set ps)"
    using obj_keys_set [of k v ps] by (simp add: obj_keys_def)
  from Cons show ?case
    by (auto simp: obj_wf_def keys)
qed

lemma obj_wf_delete: "obj_wf m \<Longrightarrow> obj_wf (obj_delete k m)"
  unfolding obj_wf_def obj_delete_def
  by (induction m) auto

lemma obj_delete_absent: "obj_get m k = None \<Longrightarrow> obj_delete k m = m"
  unfolding obj_get_def obj_delete_def
  by (induction m) (auto split: if_splits)

lemma obj_get_keys: "obj_get m k \<noteq> None \<longleftrightarrow> k \<in> set (obj_keys m)"
  unfolding obj_get_def obj_keys_def
  by (simp add: map_of_eq_None_iff)

lemma map_of_enumerate:
  "map_of (enumerate n xs) i =
     (if n \<le> i \<and> i < n + length xs then Some (xs ! (i - n)) else None)"
proof (induction xs arbitrary: n)
  case Nil
  show ?case by simp
next
  case (Cons x xs)
  show ?case
    by (cases "i = n") (auto simp: Cons.IH Suc_diff_le)
qed

lemma obj_get_enumerate:
  "obj_get (enumerate 0 xs) i = (if i < length xs then Some (xs ! i) else None)"
  unfolding obj_get_def
  by (simp add: map_of_enumerate)

section \<open>The normalizer and the poll loop\<close>

lemma round_half_near:
  fixes y :: rat
  shows "\<bar>of_int \<lfloor>y + 1 / 2\<rfloor> - y\<bar> \<le> 1 / 2"
  by linarith

lemma toFixed4_near: "\<bar>toFixed4 v - v\<bar> \<le> 1 / 20000"
proof (cases "v < 0")
  case True
  define r where "r = rat_of_int \<lfloor>(- v) * 10000 + 1 / 2\<rfloor>"
  have "\<bar>r - (- v) * 10000\<bar> \<le> 1 / 2"
    unfolding r_def by (rule round_half_near)
  then have "\<bar>- (r / 10000) - v\<bar> \<le> 1 / 20000"
    by linarith
  with True show ?thesis
    by (simp add: toFixed4_def r_def)
next
  case False
  define r where "r = rat_of_int \<lfloor>v * 10000 + 1 / 2\<rfloor>"
  have "\<bar>r - v * 10000\<bar> \<le> 1 / 2"
    unfolding r_def by (rule round_half_near)
  then have "\<bar>r / 10000 - v\<bar> \<le> 1 / 20000"
    by linarith
  with False show ?thesis
    by (simp add: toFixed4_def r_def)
qed

lemma toFixed4_grid: "\<exists>n::int. toFixed4 v = of_int n / 10000"
proof (cases "v < 0")
  case True
  then have "toFixed4 v = of_int (- \<lfloor>(- v) * 10000 + 1 / 2\<rfloor>) / 10000"
    by (simp add: toFixed4_def)
  then show ?thesis by blast
next
  case False
  then have "toFixed4 v = of_int \<lfloor>v * 10000 + 1 / 2\<rfloor> / 10000"
    by (simp add: toFixed4_def)
  then show ?thesis by blast
qed

lemma button_copy: "\<lparr>pressed = pressed b, value' = value' b, touched = touched b\<rparr> = b"
  by (cases b) simp

lemma padButtons_enumerate: "padButtons bs = enumerate 0 bs"
  by (simp add: padButtons_def button_copy)

lemma padAxes_get:
  "i < length as \<Longrightarrow>
     obj_get (padAxes d as) i = Some (if \<bar>as ! i\<bar> > d then toFixed4 (as ! i) else 0)"
  by (simp add: padAxes_def obj_get_enumerate)

lemma pollGamepad_unchanged: "\<not> changed st g \<Longrightarrow> pollGamepad d st g = st"
  by (simp add: pollGamepad_def)

lemma pollGamepad_frame [simp]:
  "gamepads (pollGamepad d st g) = gamepads st"
  "isGamepadConnected (pollGamepad d st g) = isGamepadConnected st"
  by (simp_all add: pollGamepad_def)

lemma pollGamepad_prev:
  "obj_get (prevTimestamps (pollGamepad d st g)) k =
     (if changed st g \<and> k = index g then Some (timestamp g) else obj_get (prevTimestamps st) k)"
  by (simp add: pollGamepad_def obj_get_set)

lemma pollGamepad_buttons:
  "obj_get (buttonStates (pollGamepad d st g)) k =
     (if changed st g \<and> k = index g then Some (padButtons (buttons g))
      else obj_get (buttonStates st) k)"
  by (simp add: pollGamepad_def obj_get_set)

lemma pollGamepad_axes:
  "obj_get (axisStates (pollGamepad d st g)) k =
     (if changed st g \<and> k = index g then Some (padAxes d (axes g))
      else obj_get (axisStates st) k)"
  by (simp add: pollGamepad_def obj_get_set)

lemma changed_pollGamepad_other:
  "index g' \<noteq> index g \<Longrightarrow> changed (pollGamepad d st g') g = changed st g"
  by (simp add: changed_def pollGamepad_prev)

lemma pollLoop_foldl: "pollLoop d slots st = foldl (pollGamepad d) st (presentPads slots)"
  by (induction d slots st rule: pollLoop.induct) simp_all

lemma presentPads_set: "g \<in> set (presentPads slots) \<longleftrightarrow> Some g \<in> set slots"
  by (induction slots rule: presentPads.induct) auto

text \<open>Slots no device of the list sits in keep their entries.\<close>

lemma foldl_poll_other:
  assumes "k \<notin> index ` set gs"
  shows "obj_get (prevTimestamps (foldl (pollGamepad d) st gs)) k = obj_get (prevTimestamps st) k"
    and "obj_get (buttonStates (foldl (pollGamepad d) st gs)) k = obj_get (buttonStates st) k"
    and "obj_get (axisStates (foldl (pollGamepad d) st gs)) k = obj_get (axisStates st) k"
  using assms
  by (induction gs arbitrary: st)
     (auto simp: pollGamepad_prev pollGamepad_buttons pollGamepad_axes)

lemma foldl_poll_frame:
  "gamepads (foldl (pollGamepad d) st gs) = gamepads st"
  "isGamepadConnected (foldl (pollGamepad d) st gs) = isGamepadConnected st"
  by (induction gs arbitrary: st) simp_all

text \<open>The slot of a device of the list, when no two devices share a slot.\<close>

lemma foldl_poll_slot:
  assumes "distinct (map index gs)" and "g \<in> set gs"
  shows "obj_get (prevTimestamps (foldl (pollGamepad d) st gs)) (index g) =
           (if changed st g then Some (timestamp g) else obj_get (prevTimestamps st) (index g))"
    and "obj_get (buttonStates (foldl (pollGamepad d) st gs)) (index g) =
           (if changed st g then Some (padButtons (buttons g))
            else obj_get (buttonStates st) (index g))"
    and "obj_get (axisStates (foldl (pollGamepad d) st gs)) (index g) =
           (if changed st g then Some (padAxes d (axes g))
            else obj_get (axisStates st) (index g))"
  using assms
proof (induction gs arbitrary: st)
  case Nil
  {
    case 1 then show ?case by simp
  next
    case 2 then show ?case by simp
  next
    case 3 then show ?case by simp
  }
next
  case (Cons h gs)
  {
    case 1
    show ?case
    proof (cases "h = g")
      case True
      with 1 have "index g \<notin> index ` set gs" by auto
      with True show ?thesis
        by (simp add: foldl_poll_other pollGamepad_prev)
    next
      case False
      with 1 have "g \<in> set gs" and "index h \<noteq> index g" and "distinct (map index gs)"
        by auto
      then show ?thesis
        by (simp add: Cons.IH(1) changed_pollGamepad_other pollGamepad_prev)
    qed
  next
    case 2
    show ?case
    proof (cases "h = g")
      case True
      with 2 have "index g \<notin> index ` set gs" by auto
      with True show ?thesis
        by (simp add: foldl_poll_other pollGamepad_buttons)
    next
      case False
      with 2 have "g \<in> set gs" and "index h \<noteq> index g" and "distinct (map index gs)"
        by auto
      then show ?thesis
        by (simp add: Cons.IH(2) changed_pollGamepad_other pollGamepad_buttons)
    qed
  next
    case 3
    show ?case
    proof (cases "h = g")
      case True
      with 3 have "index g \<notin> index ` set gs" by auto
      with True show ?thesis
        by (simp add: foldl_poll_other pollGamepad_axes)
    next
      case False
      with 3 have "g \<in> set gs" and "index h \<noteq> index g" and "distinct (map index gs)"
        by auto
      then show ?thesis
        by (simp add: Cons.IH(3) changed_pollGamepad_other pollGamepad_axes)
    qed
  }
qed

lemma foldl_poll_noop:
  "\<forall>g \<in> set gs. \<not> changed st g \<Longrightarrow> foldl (pollGamepad d) st gs = st"
  by (induction gs) (simp_all add: pollGamepad_unchanged)

lemma tick_foldl:
  "checkGamepadInputs d (Some slots) st = foldl (pollGamepad d) st (presentPads slots)"
  by (simp add: checkGamepadInputs_def getGamepads_def pollLoop_foldl)

lemma settled_after_poll:
  assumes "distinct (map index gs)" and "g \<in> set gs"
    and "index g' = index g" and "timestamp g' = timestamp g"
  shows "\<not> changed (foldl (pollGamepad d) st gs) g'"
proof -
  have "obj_get (prevTimestamps (foldl (pollGamepad d) st gs)) (index g) =
          (if changed st g then Some (timestamp g) else obj_get (prevTimestamps st) (index g))"
    using assms(1,2) by (rule foldl_poll_slot(1))
  with assms(3,4) show ?thesis
    by (auto simp: changed_def)
qed

lemma stamps_member:
  assumes "stamps slots' = stamps slots" and "g' \<in> set (presentPads slots')"
  shows "\<exists>g \<in> set (presentPads slots). index g = index g' \<and> timestamp g = timestamp g'"
proof -
  from assms(2) have "(index g', timestamp g') \<in> set (stamps slots')"
    by (force simp: stamps_def)
  with assms(1) have "(index g', timestamp g') \<in> set (stamps slots)"
    by simp
  then show ?thesis
    by (auto simp: stamps_def)
qed

lemma poll_quiet_slot:
  assumes "distinct (map index gs)" and "\<forall>g \<in> set gs. index g = k \<longrightarrow> \<not> changed st g"
  shows "obj_get (prevTimestamps (foldl (pollGamepad d) st gs)) k = obj_get (prevTimestamps st) k"
    and "obj_get (buttonStates (foldl (pollGamepad d) st gs)) k = obj_get (buttonStates st) k"
    and "obj_get (axisStates (foldl (pollGamepad d) st gs)) k = obj_get (axisStates st) k"
proof -
  show "obj_get (prevTimestamps (foldl (pollGamepad d) st gs)) k = obj_get (prevTimestamps st) k"
  proof (cases "k \<in> index ` set gs")
    case True
    then obtain g where "g \<in> set gs" "index g = k" by auto
    with assms show ?thesis using foldl_poll_slot(1) [of gs g d st] by auto
  next
    case False
    then show ?thesis by (rule foldl_poll_other)
  qed
  show "obj_get (buttonStates (foldl (pollGamepad d) st gs)) k = obj_get (buttonStates st) k"
  proof (cases "k \<in> index ` set gs")
    case True
    then obtain g where "g \<in> set gs" "index g = k" by auto
    with assms show ?thesis using foldl_poll_slot(2) [of gs g d st] by auto
  next
    case False
    then show ?thesis by (rule foldl_poll_other)
  qed
  show "obj_get (axisStates (foldl (pollGamepad d) st gs)) k = obj_get (axisStates st) k"
  proof (cases "k \<in> index ` set gs")
    case True
    then obtain g where "g \<in> set gs" "index g = k" by auto
    with assms show ?thesis using foldl_poll_slot(3) [of gs g d st] by auto
  next
    case False
    then show ?thesis by (rule foldl_poll_other)
  qed
qed

section \<open>The queries\<close>

lemma obj_get_values: "obj_get m k = Some v \<Longrightarrow> v \<in> set (obj_values m)"
  unfolding obj_get_def obj_values_def
  by (force dest: map_of_SomeD)

lemma axisLoop_no_error:
  "\<forall>k \<in> set ks. obj_get ax k \<noteq> None \<Longrightarrow> axisLoop d ax ks a \<noteq> Inl TypeError"
  by (induction ks) (auto split: option.splits)

lemma axisLoop_miss:
  "\<forall>k \<in> set ks. obj_get ax k \<noteq> None \<and> \<not> axisHit d ax a k \<Longrightarrow> axisLoop d ax ks a = Inr 0"
  by (induction ks) (auto simp: axisHit_def split: option.splits)

lemma axisLoop_first:
  assumes "\<forall>k \<in> set ks1. obj_get ax k \<noteq> None \<and> \<not> axisHit d ax a k"
    and "obj_get ax p = Some pad" and "obj_get pad a = Some v" and "v \<noteq> 0" and "\<bar>v\<bar> > d"
  shows "axisLoop d ax (ks1 @ p # ks2) a = Inr v"
  using assms
  by (induction ks1) (auto simp: axisHit_def split: option.splits)

lemma keys_present: "k \<in> set (obj_keys ax) \<Longrightarrow> \<exists>pad. obj_get ax k = Some pad"
  by (induction ax) (auto simp: obj_get_def obj_keys_def)

section \<open>Sessions: key order and tracked slots\<close>

lemma scanLoop_wf:
  "obj_wf (fst acc) \<Longrightarrow> obj_wf (fst (snd acc)) \<Longrightarrow>
     obj_wf (fst (scanLoop slots acc)) \<and> obj_wf (fst (snd (scanLoop slots acc)))"
  by (induction slots acc rule: scanLoop.induct) (simp_all add: obj_wf_set)

lemma pollGamepad_wf:
  assumes "obj_wf (buttonStates st)" and "obj_wf (axisStates st)" and "obj_wf (prevTimestamps st)"
  shows "obj_wf (buttonStates (pollGamepad d st g)) \<and> obj_wf (axisStates (pollGamepad d st g))
       \<and> obj_wf (prevTimestamps (pollGamepad d st g))"
  using assms by (simp add: pollGamepad_def obj_wf_set)

lemma pollLoop_wf:
  "obj_wf (buttonStates st) \<Longrightarrow> obj_wf (axisStates st) \<Longrightarrow> obj_wf (prevTimestamps st) \<Longrightarrow>
     obj_wf (buttonStates (pollLoop d slots st)) \<and> obj_wf (axisStates (pollLoop d slots st))
       \<and> obj_wf (prevTimestamps (pollLoop d slots st))"
proof (induction d slots st rule: pollLoop.induct)
  case (1 d st)
  then show ?case by simp
next
  case (2 d slots st)
  then show ?case by simp
next
  case (3 d g slots st)
  from pollGamepad_wf [OF "3.prems"] "3.IH" show ?case
    by simp
qed

lemma reachable_obj_wf:
  assumes "reachable d st"
  shows "obj_wf (gamepads st) \<and> obj_wf (buttonStates st) \<and> obj_wf (axisStates st)
       \<and> obj_wf (prevTimestamps st)"
  using assms
proof (induction rule: reachable.induct)
  case (mount h)
  have "obj_wf (fst (scanLoop (getGamepads h) ([], [], False)))
      \<and> obj_wf (fst (snd (scanLoop (getGamepads h) ([], [], False))))"
    by (rule scanLoop_wf) (simp_all add: obj_wf_def)
  then show ?case
    by (auto simp: initialScan_def initialStore_def obj_wf_def split: prod.splits)
next
  case (attach st g)
  then show ?case
    by (simp add: handleGamepadConnected_def obj_wf_set)
next
  case (detach st h g)
  then show ?case
    by (simp add: handleGamepadDisconnected_def obj_wf_delete)
next
  case (tick st h)
  with pollLoop_wf [of st d "getGamepads h"] show ?case
    by (simp add: checkGamepadInputs_def pollLoop_foldl foldl_poll_frame)
qed

lemma initialScan_published [simp]:
  "buttonStates (initialScan h st) = buttonStates st"
  "axisStates (initialScan h st) = axisStates st"
  by (simp_all add: initialScan_def split: prod.splits)

lemma tick_keys_tracked:
  assumes "\<forall>g \<in> set gs. obj_get (gamepads st) (index g) \<noteq> None"
    and "obj_get (buttonStates (foldl (pollGamepad d) st gs)) k \<noteq> None
       \<or> obj_get (axisStates (foldl (pollGamepad d) st gs)) k \<noteq> None"
    and "\<forall>j. obj_get (buttonStates st) j \<noteq> None \<or> obj_get (axisStates st) j \<noteq> None
           \<longrightarrow> obj_get (gamepads st) j \<noteq> None"
  shows "obj_get (gamepads st) k \<noteq> None"
  using assms
proof (induction gs arbitrary: st)
  case Nil
  then show ?case by auto
next
  case (Cons g gs)
  have "obj_get (gamepads (pollGamepad d st g)) k \<noteq> None"
  proof (rule Cons.IH)
    show "\<forall>g' \<in> set gs. obj_get (gamepads (pollGamepad d st g)) (index g') \<noteq> None"
      using Cons.prems(1) by simp
    show "obj_get (buttonStates (foldl (pollGamepad d) (pollGamepad d st g) gs)) k \<noteq> None
       \<or> obj_get (axisStates (foldl (pollGamepad d) (pollGamepad d st g) gs)) k \<noteq> None"
      using Cons.prems(2) by simp
    show "\<forall>j. obj_get (buttonStates (pollGamepad d st g)) j \<noteq> None
            \<or> obj_get (axisStates (pollGamepad d st g)) j \<noteq> None
           \<longrightarrow> obj_get (gamepads (pollGamepad d st g)) j \<noteq> None"
      using Cons.prems(1,3)
      by (auto simp: pollGamepad_buttons pollGamepad_axes split: if_splits)
  qed
  then show ?case by simp
qed

lemma tracked_invariant:
  assumes "tracked d st"
  shows "\<forall>k. obj_get (buttonStates st) k \<noteq> None \<or> obj_get (axisStates st) k \<noteq> None
           \<longrightarrow> obj_get (gamepads st) k \<noteq> None"
  using assms
proof (induction rule: tracked.induct)
  case (mount h)
  show ?case by (simp add: initialStore_def obj_get_def)
next
  case (attach st g)
  then show ?case
    by (auto simp: handleGamepadConnected_def obj_get_set)
next
  case (detach st h g)
  then show ?case
    by (auto simp: handleGamepadDisconnected_def obj_get_delete)
next
  case (tick st h)
  show ?case
  proof (intro allI impI)
    fix k
    assume pub: "obj_get (buttonStates (checkGamepadInputs d h st)) k \<noteq> None
       \<or> obj_get (axisStates (checkGamepadInputs d h st)) k \<noteq> None"
    have known: "\<forall>g \<in> set (presentPads (getGamepads h)). obj_get (gamepads st) (index g) \<noteq> None"
      using tick.hyps(2) by (simp add: presentPads_set)
    have "obj_get (gamepads st) k \<noteq> None"
      using known pub tick.IH
      unfolding checkGamepadInputs_def pollLoop_foldl
      by (rule tick_keys_tracked)
    then show "obj_get (gamepads (checkGamepadInputs d h st)) k \<noteq> None"
      by (simp add: checkGamepadInputs_def pollLoop_foldl foldl_poll_frame)
  qed
qed

section \<open>A store with one device\<close>




section \<open>The claims\<close>

text \<open>
  Claim C1. A device that a poll tick finds changed gets an axis entry with one value per
  raw axis, at the axis's position: exactly \<open>0\<close> when the magnitude is at most the
  deadzone (the boundary included), and otherwise the raw value rounded to four decimals,
  that is a multiple of \<open>1 / 10 ^ 4\<close> at distance at most \<open>1 / (2 * 10 ^ 4)\<close> from it. The button
  entry holds the raw buttons unchanged, position by position; the deadzone plays no part
  in it. This holds for every deadzone, so for those of \<open>[0, 1]\<close>.
\<close>

theorem deadzone_normalizer:
  assumes "distinctSlots slots" and "Some g \<in> set slots" and "changed st g"
  shows "\<exists>pad pb.
      obj_get (axisStates (checkGamepadInputs d (Some slots) st)) (index g) = Some pad
    \<and> obj_keys pad = [0..<length (axes g)]
    \<and> (\<forall>i<length (axes g).
          obj_get pad i = Some (if \<bar>axes g ! i\<bar> \<le> d then 0 else toFixed4 (axes g ! i))
        \<and> (\<exists>n::int. toFixed4 (axes g ! i) = of_int n / 10 ^ 4)
        \<and> \<bar>toFixed4 (axes g ! i) - axes g ! i\<bar> \<le> 1 / (2 * 10 ^ 4))
    \<and> obj_get (buttonStates (checkGamepadInputs d (Some slots) st)) (index g) = Some pb
    \<and> obj_keys pb = [0..<length (buttons g)]
    \<and> obj_values pb = buttons g"
proof -
  let ?st' = "checkGamepadInputs d (Some slots) st"
  from assms have slot: "distinct (map index (presentPads slots))" "g \<in> set (presentPads slots)"
    by (simp_all add: distinctSlots_def presentPads_set)
  have ax: "obj_get (axisStates ?st') (index g) = Some (padAxes d (axes g))"
    using foldl_poll_slot(3) [OF slot] assms(3)
    by (simp add: checkGamepadInputs_def getGamepads_def pollLoop_foldl)
  have bt: "obj_get (buttonStates ?st') (index g) = Some (padButtons (buttons g))"
    using foldl_poll_slot(2) [OF slot] assms(3)
    by (simp add: checkGamepadInputs_def getGamepads_def pollLoop_foldl)
  have keys_ax: "obj_keys (padAxes d (axes g)) = [0..<length (axes g)]"
    by (simp add: padAxes_def obj_keys_def)
  have vals: "\<forall>i<length (axes g).
      obj_get (padAxes d (axes g)) i
        = Some (if \<bar>axes g ! i\<bar> \<le> d then 0 else toFixed4 (axes g ! i))
    \<and> (\<exists>n::int. toFixed4 (axes g ! i) = of_int n / 10 ^ 4)
    \<and> \<bar>toFixed4 (axes g ! i) - axes g ! i\<bar> \<le> 1 / (2 * 10 ^ 4)"
    using toFixed4_grid toFixed4_near by (simp add: padAxes_get not_less)
  have keys_bt: "obj_keys (padButtons (buttons g)) = [0..<length (buttons g)]"
    by (simp add: padButtons_enumerate obj_keys_def)
  have vals_bt: "obj_values (padButtons (buttons g)) = buttons g"
    by (simp add: padButtons_enumerate obj_values_def)
  from ax bt keys_ax vals keys_bt vals_bt show ?thesis by blast
qed

theorem deadzone_normalizer_witness:
  "distinctSlots [Some padOne, None, Some padTwo] \<and> changed initialStore padOne
   \<and> (\<exists>pad. obj_get (axisStates (checkGamepadInputs (1 / 10) (Some [Some padOne, None, Some padTwo])
          initialStore)) 0 = Some pad
        \<and> obj_get pad 0 = Some (1 / 2) \<and> obj_get pad 1 = Some 0
        \<and> obj_get pad 2 = Some (2346 / 10000) \<and> obj_get pad 3 = Some 0 \<and> obj_get pad 4 = Some 0)"
proof -
  have h1: "distinctSlots [Some padOne, None, Some padTwo]"
    by (simp add: distinctSlots_def padOne_def padTwo_def)
  have h2: "Some padOne \<in> set [Some padOne, None, Some padTwo]" by simp
  have h3: "changed initialStore padOne"
    by (simp add: changed_def initialStore_def padOne_def obj_get_def)
  have ev: "toFixed4 (1 / 2) = 1 / 2" "toFixed4 (23456 / 100000) = 2346 / 10000"
    by code_simp+
  from deadzone_normalizer [OF h1 h2 h3, of "1 / 10"] obtain pad where
    pad: "obj_get (axisStates (checkGamepadInputs (1 / 10) (Some [Some padOne, None, Some padTwo])
            initialStore)) (index padOne) = Some pad"
    and vals: "\<forall>i<length (axes padOne).
         obj_get pad i = Some (if \<bar>axes padOne ! i\<bar> \<le> 1 / 10 then 0 else toFixed4 (axes padOne ! i))"
    by blast
  have "obj_get pad 0 = Some (1 / 2)" "obj_get pad 1 = Some 0"
    "obj_get pad 2 = Some (2346 / 10000)" "obj_get pad 3 = Some 0" "obj_get pad 4 = Some 0"
    using vals [rule_format, of 0] vals [rule_format, of 1] vals [rule_format, of 2]
      vals [rule_format, of 3] vals [rule_format, of 4] ev
    by (simp_all add: padOne_def)
  with h1 h3 pad show ?thesis by (simp add: padOne_def)
qed



text \<open>
  Claim C6. On a host without \<open>navigator.getGamepads\<close> the poll tick and the scan of the
  mount effect leave the store as it is, exactly as they do on a host whose array is
  empty; the detach handler too behaves as on an empty array. Starting from the initial
  store, no device entry, no published state and no timestamp exists afterwards and the
  connected flag is false. Neither function has an error branch.
\<close>

theorem host_capability_absent:
  "checkGamepadInputs d None st = st
   \<and> initialScan None st = st
   \<and> checkGamepadInputs d None st = checkGamepadInputs d (Some []) st
   \<and> initialScan None st = initialScan (Some []) st
   \<and> handleGamepadDisconnected None g st = handleGamepadDisconnected (Some []) g st
   \<and> gamepads (checkGamepadInputs d None (initialScan None initialStore)) = []
   \<and> buttonStates (checkGamepadInputs d None (initialScan None initialStore)) = []
   \<and> axisStates (checkGamepadInputs d None (initialScan None initialStore)) = []
   \<and> prevTimestamps (checkGamepadInputs d None (initialScan None initialStore)) = []
   \<and> \<not> isGamepadConnected (checkGamepadInputs d None (initialScan None initialStore))"
  by (simp add: checkGamepadInputs_def initialScan_def handleGamepadDisconnected_def
      getGamepads_def initialStore_def)

text \<open>
  Claim C9. After a detach event the connected flag says whether the host's array holds a
  slot that is not \<open>null\<close>; the store does not enter into it. Without the host's query
  the flag is false.
\<close>

theorem detach_rescans_host:
  "isGamepadConnected (handleGamepadDisconnected h g st)
     = (case h of None \<Rightarrow> False | Some slots \<Rightarrow> (\<exists>gp \<in> set slots. gp \<noteq> None))"
  by (auto simp: handleGamepadDisconnected_def getGamepads_def list_ex_iff split: option.splits)

theorem detach_rescans_host_witness:
  "isGamepadConnected (handleGamepadDisconnected None padOne
      (handleGamepadConnected padTwo (handleGamepadConnected padOne initialStore))) = False
   \<and> gamepads (handleGamepadDisconnected None padOne
      (handleGamepadConnected padTwo (handleGamepadConnected padOne initialStore))) = [(1, padTwo)]
   \<and> isGamepadConnected (handleGamepadDisconnected (Some [None, Some padTwo]) padOne initialStore) = True
   \<and> gamepads (handleGamepadDisconnected (Some [None, Some padTwo]) padOne initialStore) = []"
  using detach_rescans_host [of None padOne
      "handleGamepadConnected padTwo (handleGamepadConnected padOne initialStore)"]
    detach_rescans_host [of "Some [None, Some padTwo]" padOne initialStore]
  by (simp add: handleGamepadDisconnected_def handleGamepadConnected_def initialStore_def
      obj_delete_def padOne_def padTwo_def)

text \<open>
  Claim C5. A query about a device slot, a button index or an axis index that the store
  does not hold answers \<open>False\<close> (the two button queries) or \<open>0\<close> (the two axis
  queries). \<open>getAxisValue\<close>, the one query that reads without a guard, never takes its
  error branch, whatever the store. With no device attached the flag is false,
  \<open>isButtonPressed(0)\<close> is false and \<open>getAxisValue(0)\<close> is \<open>0\<close>.
\<close>

theorem queries_default:
  "(obj_get bs gi = None \<longrightarrow> isButtonPressedOnGamepad bs gi bi = False)
   \<and> (\<forall>pb. obj_get bs gi = Some pb \<and> obj_get pb bi = None
         \<longrightarrow> isButtonPressedOnGamepad bs gi bi = False)
   \<and> ((\<forall>pb \<in> set (obj_values bs). obj_get pb bi = None) \<longrightarrow> isButtonPressed bs bi = False)
   \<and> (obj_get ax gi = None \<longrightarrow> getAxisValueForGamepad ax gi ai = 0)
   \<and> (\<forall>pad. obj_get ax gi = Some pad \<and> obj_get pad ai = None
         \<longrightarrow> getAxisValueForGamepad ax gi ai = 0)
   \<and> ((\<forall>pad \<in> set (obj_values ax). obj_get pad ai = None) \<longrightarrow> getAxisValue d ax ai = Inr 0)
   \<and> getAxisValue d ax ai \<noteq> Inl TypeError
   \<and> isGamepadConnected initialStore = False
   \<and> isButtonPressed (buttonStates initialStore) 0 = False
   \<and> getAxisValue d (axisStates initialStore) 0 = Inr 0"
proof -
  have a: "(\<forall>pad \<in> set (obj_values ax). obj_get pad ai = None) \<longrightarrow> getAxisValue d ax ai = Inr 0"
  proof
    assume none: "\<forall>pad \<in> set (obj_values ax). obj_get pad ai = None"
    have "\<forall>k \<in> set (obj_keys ax). obj_get ax k \<noteq> None \<and> \<not> axisHit d ax ai k"
    proof
      fix k assume "k \<in> set (obj_keys ax)"
      then obtain pad where pad: "obj_get ax k = Some pad"
        using keys_present by blast
      with none have "obj_get pad ai = None"
        using obj_get_values by fastforce
      with pad show "obj_get ax k \<noteq> None \<and> \<not> axisHit d ax ai k"
        by (simp add: axisHit_def)
    qed
    then show "getAxisValue d ax ai = Inr 0"
      unfolding getAxisValue_def by (rule axisLoop_miss)
  qed
  have b: "getAxisValue d ax ai \<noteq> Inl TypeError"
    unfolding getAxisValue_def by (rule axisLoop_no_error) (auto dest: keys_present)
  have c: "(\<forall>pb \<in> set (obj_values bs). obj_get pb bi = None) \<longrightarrow> isButtonPressed bs bi = False"
    by (simp add: isButtonPressed_def list_ex_iff)
  have e: "isButtonPressed (buttonStates initialStore) 0 = False"
    "getAxisValue d (axisStates initialStore) 0 = Inr 0" "isGamepadConnected initialStore = False"
    by (simp_all add: isButtonPressed_def getAxisValue_def initialStore_def obj_values_def
        obj_keys_def)
  show ?thesis
    using a b c e by (simp add: isButtonPressedOnGamepad_def getAxisValueForGamepad_def)
qed

theorem queries_default_witness:
  "isButtonPressedOnGamepad (buttonStates (checkGamepadInputs (1 / 10) (Some [Some padOne]) initialStore)) 3 1 = False
   \<and> isButtonPressedOnGamepad (buttonStates (checkGamepadInputs (1 / 10) (Some [Some padOne]) initialStore)) 0 1 = False
   \<and> isButtonPressed (buttonStates (checkGamepadInputs (1 / 10) (Some [Some padOne]) initialStore)) 1 = False
   \<and> getAxisValueForGamepad (axisStates (checkGamepadInputs (1 / 10) (Some [Some padOne]) initialStore)) 3 5 = 0
   \<and> getAxisValueForGamepad (axisStates (checkGamepadInputs (1 / 10) (Some [Some padOne]) initialStore)) 0 5 = 0
   \<and> getAxisValue (1 / 10) (axisStates (checkGamepadInputs (1 / 10) (Some [Some padOne]) initialStore)) 5 = Inr 0"
proof -
  define bs where "bs = buttonStates (checkGamepadInputs (1 / 10) (Some [Some padOne]) initialStore)"
  define ax where "ax = axisStates (checkGamepadInputs (1 / 10) (Some [Some padOne]) initialStore)"
  have bs: "bs = [(0, [(0, \<lparr>pressed = True, value' = 1, touched = True\<rparr>)])]"
    unfolding bs_def by code_simp
  have ax: "ax = [(0, [(0, 1 / 2), (1, 0), (2, 1173 / 5000), (3, 0), (4, 0)])]"
    unfolding ax_def by code_simp
  have h1: "obj_get bs 3 = None" "obj_get ax 3 = None"
    by (simp_all add: bs ax obj_get_def)
  have h2: "\<exists>pb. obj_get bs 0 = Some pb \<and> obj_get pb 1 = None"
    "\<exists>pad. obj_get ax 0 = Some pad \<and> obj_get pad 5 = None"
    by (simp_all add: bs ax obj_get_def)
  have h3: "\<forall>pb \<in> set (obj_values bs). obj_get pb 1 = None"
    "\<forall>pad \<in> set (obj_values ax). obj_get pad 5 = None"
    by (simp_all add: bs ax obj_get_def obj_values_def)
  note absent = queries_default [of bs 3 1 ax 5 "1 / 10"]
  note short = queries_default [of bs 0 1 ax 5 "1 / 10"]
  have "isButtonPressedOnGamepad bs 3 1 = False" using absent h1 by blast
  moreover have "isButtonPressedOnGamepad bs 0 1 = False" using short h2 by blast
  moreover have "isButtonPressed bs 1 = False" using absent h3 by blast
  moreover have "getAxisValueForGamepad ax 3 5 = 0" using absent h1 by blast
  moreover have "getAxisValueForGamepad ax 0 5 = 0" using short h2 by blast
  moreover have "getAxisValue (1 / 10) ax 5 = Inr 0" using absent h3 by blast
  ultimately show ?thesis unfolding bs_def ax_def by blast
qed

text \<open>
  Claim C2. On a published axis store, \<open>getAxisValue\<close> returns the stored value of the
  lowest slot whose value for the axis is non-zero and of magnitude greater than the
  deadzone, and \<open>0\<close> when there is no such slot. With slots \<open>0\<close> and \<open>1\<close> both storing
  \<open>0.5\<close> for axis \<open>0\<close> and deadzone \<open>0.1\<close> the answer is \<open>0.5\<close>.
\<close>

theorem first_match_axis:
  assumes "obj_wf ax"
  shows "(\<forall>p pad v. obj_get ax p = Some pad \<and> obj_get pad a = Some v \<and> v \<noteq> 0 \<and> \<bar>v\<bar> > d
             \<and> (\<forall>q<p. \<not> axisHit d ax a q)
           \<longrightarrow> getAxisValue d ax a = Inr v)
       \<and> ((\<forall>p. \<not> axisHit d ax a p) \<longrightarrow> getAxisValue d ax a = Inr 0)
       \<and> getAxisValue (1 / 10) [(0, [(0, 1 / 2)]), (1, [(0, 1 / 2)])] 0 = Inr (1 / 2)"
proof (intro conjI allI impI)
  fix p pad v
  assume h: "obj_get ax p = Some pad \<and> obj_get pad a = Some v \<and> v \<noteq> 0 \<and> \<bar>v\<bar> > d
             \<and> (\<forall>q<p. \<not> axisHit d ax a q)"
  then have "p \<in> set (obj_keys ax)"
    using obj_get_keys [of ax p] by simp
  then obtain ks1 ks2 where split: "obj_keys ax = ks1 @ p # ks2"
    by (meson split_list)
  from assms have "sorted_wrt (<) (ks1 @ p # ks2)"
    by (simp add: obj_wf_def obj_keys_def split [symmetric])
  then have below: "\<forall>k \<in> set ks1. k < p"
    by (simp add: sorted_wrt_append)
  have "\<forall>k \<in> set ks1. obj_get ax k \<noteq> None \<and> \<not> axisHit d ax a k"
  proof
    fix k assume k: "k \<in> set ks1"
    then have "k \<in> set (obj_keys ax)" by (simp add: split)
    with k below h show "obj_get ax k \<noteq> None \<and> \<not> axisHit d ax a k"
      by (auto dest: keys_present)
  qed
  with h show "getAxisValue d ax a = Inr v"
    unfolding getAxisValue_def split by (intro axisLoop_first) auto
next
  assume "\<forall>p. \<not> axisHit d ax a p"
  then have "\<forall>k \<in> set (obj_keys ax). obj_get ax k \<noteq> None \<and> \<not> axisHit d ax a k"
    by (auto dest: keys_present)
  then show "getAxisValue d ax a = Inr 0"
    unfolding getAxisValue_def by (rule axisLoop_miss)
next
  show "getAxisValue (1 / 10) [(0, [(0, 1 / 2)]), (1, [(0, 1 / 2)])] 0 = Inr (1 / 2)"
    by (simp add: getAxisValue_def obj_keys_def obj_get_def)
qed

theorem first_match_axis_witness:
  "obj_wf (axisStates (checkGamepadInputs (1 / 10) (Some [Some padOne, Some padTwo]) initialStore))
   \<and> axisStates (checkGamepadInputs (1 / 10) (Some [Some padOne, Some padTwo]) initialStore)
       = [(0, [(0, 1 / 2), (1, 0), (2, 1173 / 5000), (3, 0), (4, 0)]), (1, [(0, 1 / 2)])]
   \<and> getAxisValue (1 / 10)
       (axisStates (checkGamepadInputs (1 / 10) (Some [Some padOne, Some padTwo]) initialStore)) 0
       = Inr (1 / 2)
   \<and> getAxisValue (1 / 10)
       (axisStates (checkGamepadInputs (1 / 10) (Some [Some padOne, Some padTwo]) initialStore)) 1
       = Inr 0"
proof -
  define ax where
    "ax = axisStates (checkGamepadInputs (1 / 10) (Some [Some padOne, Some padTwo]) initialStore)"
  have ax: "ax = [(0, [(0, 1 / 2), (1, 0), (2, 1173 / 5000), (3, 0), (4, 0)]), (1, [(0, 1 / 2)])]"
    unfolding ax_def by code_simp
  have wf: "obj_wf ax"
    by (simp add: ax obj_wf_def)
  have miss: "\<forall>p. \<not> axisHit (1 / 10) ax 1 p"
    by (simp add: ax axisHit_def obj_get_def)
  have hit: "obj_get ax 0 = Some [(0, 1 / 2), (1, 0), (2, 1173 / 5000), (3, 0), (4, 0)]
      \<and> obj_get [(0, 1 / 2), (1, 0), (2, 1173 / 5000), (3, 0), (4, 0)] 0 = Some (1 / 2 :: rat)
      \<and> (1 / 2 :: rat) \<noteq> 0 \<and> \<bar>1 / 2 :: rat\<bar> > 1 / 10 \<and> (\<forall>q<0::nat. \<not> axisHit (1 / 10) ax 0 q)"
    by (simp add: ax obj_get_def)
  have "getAxisValue (1 / 10) ax 0 = Inr (1 / 2)"
    using first_match_axis [OF wf, of 0 "1 / 10"] hit by blast
  moreover have "getAxisValue (1 / 10) ax 1 = Inr 0"
    using first_match_axis [OF wf, of 1 "1 / 10"] miss by blast
  ultimately show ?thesis using wf ax unfolding ax_def by simp
qed

text \<open>
  Claim C3. In a poll tick over a host array whose devices sit in distinct slots, a device
  is handled as changed exactly when its timestamp is non-zero and differs from the one
  stored for its slot: then the timestamp is recorded and the slot's button and axis
  entries are published, and otherwise the slot's timestamp and entries stay as they
  were. Consequently a second tick that reports a device with the slot and timestamp of
  the first tick leaves that slot's published entries alone, whatever its buttons and axes
  are by then, and a second tick whose devices all have the slots and timestamps of the
  first leaves the whole store unchanged.
\<close>

theorem timestamp_change_detection:
  assumes "distinctSlots slots"
  shows "(\<forall>g. Some g \<in> set slots \<longrightarrow>
            (if timestamp g \<noteq> 0 \<and> obj_get (prevTimestamps st) (index g) \<noteq> Some (timestamp g)
             then obj_get (prevTimestamps (checkGamepadInputs d (Some slots) st)) (index g)
                    = Some (timestamp g)
                \<and> obj_get (buttonStates (checkGamepadInputs d (Some slots) st)) (index g)
                    = Some (padButtons (buttons g))
                \<and> obj_get (axisStates (checkGamepadInputs d (Some slots) st)) (index g)
                    = Some (padAxes d (axes g))
             else obj_get (prevTimestamps (checkGamepadInputs d (Some slots) st)) (index g)
                    = obj_get (prevTimestamps st) (index g)
                \<and> obj_get (buttonStates (checkGamepadInputs d (Some slots) st)) (index g)
                    = obj_get (buttonStates st) (index g)
                \<and> obj_get (axisStates (checkGamepadInputs d (Some slots) st)) (index g)
                    = obj_get (axisStates st) (index g)))
       \<and> (\<forall>slots' g g'. distinctSlots slots' \<and> Some g \<in> set slots \<and> Some g' \<in> set slots'
              \<and> index g' = index g \<and> timestamp g' = timestamp g
            \<longrightarrow> obj_get (buttonStates (checkGamepadInputs d (Some slots')
                     (checkGamepadInputs d (Some slots) st))) (index g)
                  = obj_get (buttonStates (checkGamepadInputs d (Some slots) st)) (index g)
              \<and> obj_get (axisStates (checkGamepadInputs d (Some slots')
                     (checkGamepadInputs d (Some slots) st))) (index g)
                  = obj_get (axisStates (checkGamepadInputs d (Some slots) st)) (index g))
       \<and> (\<forall>slots'. stamps slots' = stamps slots
            \<longrightarrow> checkGamepadInputs d (Some slots') (checkGamepadInputs d (Some slots) st)
                  = checkGamepadInputs d (Some slots) st)"
proof -
  from assms have dist: "distinct (map index (presentPads slots))"
    by (simp add: distinctSlots_def)
  have first: "if timestamp g \<noteq> 0 \<and> obj_get (prevTimestamps st) (index g) \<noteq> Some (timestamp g)
        then obj_get (prevTimestamps (checkGamepadInputs d (Some slots) st)) (index g)
               = Some (timestamp g)
           \<and> obj_get (buttonStates (checkGamepadInputs d (Some slots) st)) (index g)
               = Some (padButtons (buttons g))
           \<and> obj_get (axisStates (checkGamepadInputs d (Some slots) st)) (index g)
               = Some (padAxes d (axes g))
        else obj_get (prevTimestamps (checkGamepadInputs d (Some slots) st)) (index g)
               = obj_get (prevTimestamps st) (index g)
           \<and> obj_get (buttonStates (checkGamepadInputs d (Some slots) st)) (index g)
               = obj_get (buttonStates st) (index g)
           \<and> obj_get (axisStates (checkGamepadInputs d (Some slots) st)) (index g)
               = obj_get (axisStates st) (index g)"
    if "Some g \<in> set slots" for g
  proof -
    from that have "g \<in> set (presentPads slots)"
      by (simp add: presentPads_set)
    from foldl_poll_slot [OF dist this, of d st] show ?thesis
      by (auto simp: tick_foldl changed_def)
  qed
  have second: "obj_get (buttonStates (checkGamepadInputs d (Some slots')
            (checkGamepadInputs d (Some slots) st))) (index g)
          = obj_get (buttonStates (checkGamepadInputs d (Some slots) st)) (index g)
      \<and> obj_get (axisStates (checkGamepadInputs d (Some slots')
            (checkGamepadInputs d (Some slots) st))) (index g)
          = obj_get (axisStates (checkGamepadInputs d (Some slots) st)) (index g)"
    if h: "distinctSlots slots' \<and> Some g \<in> set slots \<and> Some g' \<in> set slots'
       \<and> index g' = index g \<and> timestamp g' = timestamp g" for slots' g g'
  proof -
    from h have slot: "g \<in> set (presentPads slots)"
      and slot': "distinct (map index (presentPads slots'))" "g' \<in> set (presentPads slots')"
      by (simp_all add: distinctSlots_def presentPads_set)
    from h have same: "index g' = index g" "timestamp g' = timestamp g" by simp_all
    have quiet: "\<not> changed (foldl (pollGamepad d) st (presentPads slots)) g'"
      using dist slot same by (rule settled_after_poll)
    from foldl_poll_slot(2,3) [OF slot', of d "foldl (pollGamepad d) st (presentPads slots)"]
      quiet same
    show ?thesis
      by (simp add: tick_foldl)
  qed
  have third: "checkGamepadInputs d (Some slots') (checkGamepadInputs d (Some slots) st)
      = checkGamepadInputs d (Some slots) st"
    if eq: "stamps slots' = stamps slots" for slots'
  proof -
    have "\<forall>g' \<in> set (presentPads slots').
        \<not> changed (foldl (pollGamepad d) st (presentPads slots)) g'"
    proof
      fix g' assume "g' \<in> set (presentPads slots')"
      with eq obtain g where "g \<in> set (presentPads slots)" "index g = index g'"
        "timestamp g = timestamp g'"
        using stamps_member by blast
      with dist show "\<not> changed (foldl (pollGamepad d) st (presentPads slots)) g'"
        using settled_after_poll [of "presentPads slots" g g' d st] by simp
    qed
    then show ?thesis
      by (simp add: tick_foldl foldl_poll_noop)
  qed
  from first second third show ?thesis
    by blast
qed

theorem timestamp_change_detection_witness:
  "distinctSlots [Some padOne, None, Some padTwo]
   \<and> stamps [Some padOneLater, Some padTwo] = stamps [Some padOne, None, Some padTwo]
   \<and> checkGamepadInputs (1 / 10) (Some [Some padOneLater, Some padTwo])
        (checkGamepadInputs (1 / 10) (Some [Some padOne, None, Some padTwo]) initialStore)
      = checkGamepadInputs (1 / 10) (Some [Some padOne, None, Some padTwo]) initialStore
   \<and> obj_get (buttonStates (checkGamepadInputs (1 / 10) (Some [Some padOne, None, Some padTwo])
        initialStore)) 0 = Some (padButtons (buttons padOne))"
proof -
  have h1: "distinctSlots [Some padOne, None, Some padTwo]"
    by (simp add: distinctSlots_def padOne_def padTwo_def)
  have h2: "stamps [Some padOneLater, Some padTwo] = stamps [Some padOne, None, Some padTwo]"
    by (simp add: stamps_def padOne_def padOneLater_def)
  have h3: "Some padOne \<in> set [Some padOne, None, Some padTwo]"
    by simp
  have h4: "timestamp padOne \<noteq> 0
      \<and> obj_get (prevTimestamps initialStore) (index padOne) \<noteq> Some (timestamp padOne)"
    by (simp add: padOne_def initialStore_def obj_get_def)
  note tick = timestamp_change_detection [OF h1, of initialStore "1 / 10"]
  from tick h2 have "checkGamepadInputs (1 / 10) (Some [Some padOneLater, Some padTwo])
        (checkGamepadInputs (1 / 10) (Some [Some padOne, None, Some padTwo]) initialStore)
      = checkGamepadInputs (1 / 10) (Some [Some padOne, None, Some padTwo]) initialStore"
    by blast
  moreover from tick [THEN conjunct1, rule_format, OF h3] h4
  have "obj_get (buttonStates (checkGamepadInputs (1 / 10) (Some [Some padOne, None, Some padTwo])
        initialStore)) (index padOne) = Some (padButtons (buttons padOne))"
    by simp
  then have "obj_get (buttonStates (checkGamepadInputs (1 / 10) (Some [Some padOne, None, Some padTwo])
        initialStore)) 0 = Some (padButtons (buttons padOne))"
    by (simp add: padOne_def)
  ultimately show ?thesis using h1 h2 by blast
qed

text \<open>
  Claim C7. When a poll tick over a host array with distinct slots finds a device changed,
  it records the device's timestamp and the slot's button and axis entries become the
  fresh normalization of the snapshot, with the keys of the snapshot only: the previous
  entry of the slot plays no part in the new one. Slots in which the tick finds no changed
  device keep their timestamp and entries, the step for one device touches no other slot,
  and the device set and the connected flag are not written.
\<close>

theorem publish_replaces_slot:
  assumes "distinctSlots slots" and "Some g \<in> set slots" and "changed st g"
  shows "obj_get (prevTimestamps (checkGamepadInputs d (Some slots) st)) (index g)
           = Some (timestamp g)
       \<and> obj_get (buttonStates (checkGamepadInputs d (Some slots) st)) (index g)
           = Some (padButtons (buttons g))
       \<and> obj_get (axisStates (checkGamepadInputs d (Some slots) st)) (index g)
           = Some (padAxes d (axes g))
       \<and> obj_keys (padButtons (buttons g)) = [0..<length (buttons g)]
       \<and> obj_keys (padAxes d (axes g)) = [0..<length (axes g)]
       \<and> (\<forall>k. (\<forall>g'. Some g' \<in> set slots \<and> index g' = k \<longrightarrow> \<not> changed st g')
            \<longrightarrow> obj_get (prevTimestamps (checkGamepadInputs d (Some slots) st)) k
                  = obj_get (prevTimestamps st) k
              \<and> obj_get (buttonStates (checkGamepadInputs d (Some slots) st)) k
                  = obj_get (buttonStates st) k
              \<and> obj_get (axisStates (checkGamepadInputs d (Some slots) st)) k
                  = obj_get (axisStates st) k)
       \<and> (\<forall>k. k \<noteq> index g
            \<longrightarrow> obj_get (prevTimestamps (pollGamepad d st g)) k = obj_get (prevTimestamps st) k
              \<and> obj_get (buttonStates (pollGamepad d st g)) k = obj_get (buttonStates st) k
              \<and> obj_get (axisStates (pollGamepad d st g)) k = obj_get (axisStates st) k)
       \<and> gamepads (checkGamepadInputs d (Some slots) st) = gamepads st
       \<and> isGamepadConnected (checkGamepadInputs d (Some slots) st) = isGamepadConnected st"
proof -
  from assms have dist: "distinct (map index (presentPads slots))"
    and slot: "g \<in> set (presentPads slots)"
    by (simp_all add: distinctSlots_def presentPads_set)
  have own: "obj_get (prevTimestamps (checkGamepadInputs d (Some slots) st)) (index g)
           = Some (timestamp g)
       \<and> obj_get (buttonStates (checkGamepadInputs d (Some slots) st)) (index g)
           = Some (padButtons (buttons g))
       \<and> obj_get (axisStates (checkGamepadInputs d (Some slots) st)) (index g)
           = Some (padAxes d (axes g))"
    using foldl_poll_slot [OF dist slot, of d st] assms(3)
    by (simp add: tick_foldl)
  have keys: "obj_keys (padButtons (buttons g)) = [0..<length (buttons g)]"
    "obj_keys (padAxes d (axes g)) = [0..<length (axes g)]"
    by (simp_all add: padButtons_def padAxes_def obj_keys_def)
  have quiet: "obj_get (prevTimestamps (checkGamepadInputs d (Some slots) st)) k
                  = obj_get (prevTimestamps st) k
              \<and> obj_get (buttonStates (checkGamepadInputs d (Some slots) st)) k
                  = obj_get (buttonStates st) k
              \<and> obj_get (axisStates (checkGamepadInputs d (Some slots) st)) k
                  = obj_get (axisStates st) k"
    if "\<forall>g'. Some g' \<in> set slots \<and> index g' = k \<longrightarrow> \<not> changed st g'" for k
  proof -
    from that have "\<forall>g' \<in> set (presentPads slots). index g' = k \<longrightarrow> \<not> changed st g'"
      by (simp add: presentPads_set)
    with dist show ?thesis
      by (simp add: tick_foldl poll_quiet_slot)
  qed
  have step: "\<forall>k. k \<noteq> index g
            \<longrightarrow> obj_get (prevTimestamps (pollGamepad d st g)) k = obj_get (prevTimestamps st) k
              \<and> obj_get (buttonStates (pollGamepad d st g)) k = obj_get (buttonStates st) k
              \<and> obj_get (axisStates (pollGamepad d st g)) k = obj_get (axisStates st) k"
    by (simp add: pollGamepad_prev pollGamepad_buttons pollGamepad_axes)
  have frame: "gamepads (checkGamepadInputs d (Some slots) st) = gamepads st"
    "isGamepadConnected (checkGamepadInputs d (Some slots) st) = isGamepadConnected st"
    by (simp_all add: tick_foldl foldl_poll_frame)
  from own keys quiet step frame show ?thesis
    by blast
qed

theorem publish_replaces_slot_witness:
  "distinctSlots [Some padOneLater, Some padTwo]
   \<and> changed (checkGamepadInputs (1 / 10) (Some [Some padOne]) initialStore) padTwo
   \<and> axisStates (checkGamepadInputs (1 / 10) (Some [Some padOne]) initialStore)
       = [(0, [(0, 1 / 2), (1, 0), (2, 1173 / 5000), (3, 0), (4, 0)])]
   \<and> obj_get (axisStates (checkGamepadInputs (1 / 10) (Some [Some padOneLater, Some padTwo])
         (checkGamepadInputs (1 / 10) (Some [Some padOne]) initialStore))) 1 = Some [(0, 1 / 2)]
   \<and> obj_get (axisStates (checkGamepadInputs (1 / 10) (Some [Some padOneLater, Some padTwo])
         (checkGamepadInputs (1 / 10) (Some [Some padOne]) initialStore))) 0
       = Some [(0, 1 / 2), (1, 0), (2, 1173 / 5000), (3, 0), (4, 0)]"
proof -
  define st where "st = checkGamepadInputs (1 / 10) (Some [Some padOne]) initialStore"
  have st: "st = \<lparr>gamepads = [],
      buttonStates = [(0, [(0, \<lparr>pressed = True, value' = 1, touched = True\<rparr>)])],
      axisStates = [(0, [(0, 1 / 2), (1, 0), (2, 1173 / 5000), (3, 0), (4, 0)])],
      isGamepadConnected = False, prevTimestamps = [(0, 7)]\<rparr>"
    unfolding st_def by code_simp
  have h1: "distinctSlots [Some padOneLater, Some padTwo]"
    by (simp add: distinctSlots_def padOneLater_def padTwo_def)
  have h2: "Some padTwo \<in> set [Some padOneLater, Some padTwo]"
    by simp
  have h3: "changed st padTwo"
    by (simp add: st changed_def padTwo_def obj_get_def)
  have quiet: "\<forall>g'. Some g' \<in> set [Some padOneLater, Some padTwo] \<and> index g' = 0
      \<longrightarrow> \<not> changed st g'"
    by (auto simp: st changed_def padOneLater_def padTwo_def obj_get_def)
  note pub = publish_replaces_slot [OF h1 h2 h3, of "1 / 10"]
  have ax2: "padAxes (1 / 10) (axes padTwo) = [(0, 1 / 2)]"
    by code_simp
  from pub have "obj_get (axisStates (checkGamepadInputs (1 / 10) (Some [Some padOneLater, Some padTwo]) st))
      (index padTwo) = Some (padAxes (1 / 10) (axes padTwo))"
    by blast
  then have a: "obj_get (axisStates (checkGamepadInputs (1 / 10) (Some [Some padOneLater, Some padTwo]) st)) 1
      = Some [(0, 1 / 2)]"
    by (simp add: ax2) (simp add: padTwo_def)
  from pub quiet have "obj_get (axisStates (checkGamepadInputs (1 / 10) (Some [Some padOneLater, Some padTwo]) st)) 0
      = obj_get (axisStates st) 0"
    by blast
  then have b: "obj_get (axisStates (checkGamepadInputs (1 / 10) (Some [Some padOneLater, Some padTwo]) st)) 0
      = Some [(0, 1 / 2), (1, 0), (2, 1173 / 5000), (3, 0), (4, 0)]"
    by (simp add: st obj_get_def)
  have c: "axisStates st = [(0, [(0, 1 / 2), (1, 0), (2, 1173 / 5000), (3, 0), (4, 0)])]"
    by (simp add: st)
  from h1 h3 a b c show ?thesis
    unfolding st_def by blast
qed

text \<open>
  Claim C8, amended. The attach handler writes the device at its slot of the device set
  (over any entry there), stores the timestamp \<open>0\<close> for the slot and raises the connected
  flag; other slots and the published entries stay as they were. A following poll tick,
  over a host array with distinct slots, that reports a device in that slot with a
  non-zero timestamp handles it as changed and publishes its state. For a device whose
  timestamp is \<open>0\<close> nothing is promised: the test \<open>gamepad.timestamp &&\<close> of the tick
  skips it.
\<close>

theorem attach_resets_timestamp:
  "obj_get (gamepads (handleGamepadConnected g st)) (index g) = Some g
   \<and> obj_get (prevTimestamps (handleGamepadConnected g st)) (index g) = Some 0
   \<and> isGamepadConnected (handleGamepadConnected g st)
   \<and> (\<forall>k. k \<noteq> index g \<longrightarrow>
          obj_get (gamepads (handleGamepadConnected g st)) k = obj_get (gamepads st) k
        \<and> obj_get (prevTimestamps (handleGamepadConnected g st)) k = obj_get (prevTimestamps st) k)
   \<and> buttonStates (handleGamepadConnected g st) = buttonStates st
   \<and> axisStates (handleGamepadConnected g st) = axisStates st
   \<and> (\<forall>slots g'. distinctSlots slots \<and> Some g' \<in> set slots \<and> index g' = index g
          \<and> timestamp g' \<noteq> 0
        \<longrightarrow> changed (handleGamepadConnected g st) g'
          \<and> obj_get (prevTimestamps (checkGamepadInputs d (Some slots) (handleGamepadConnected g st)))
               (index g) = Some (timestamp g')
          \<and> obj_get (buttonStates (checkGamepadInputs d (Some slots) (handleGamepadConnected g st)))
               (index g) = Some (padButtons (buttons g'))
          \<and> obj_get (axisStates (checkGamepadInputs d (Some slots) (handleGamepadConnected g st)))
               (index g) = Some (padAxes d (axes g')))"
proof -
  have own: "obj_get (gamepads (handleGamepadConnected g st)) (index g) = Some g"
    "obj_get (prevTimestamps (handleGamepadConnected g st)) (index g) = Some 0"
    "isGamepadConnected (handleGamepadConnected g st)"
    "buttonStates (handleGamepadConnected g st) = buttonStates st"
    "axisStates (handleGamepadConnected g st) = axisStates st"
    by (simp_all add: handleGamepadConnected_def obj_get_set)
  have others: "\<forall>k. k \<noteq> index g \<longrightarrow>
          obj_get (gamepads (handleGamepadConnected g st)) k = obj_get (gamepads st) k
        \<and> obj_get (prevTimestamps (handleGamepadConnected g st)) k = obj_get (prevTimestamps st) k"
    by (simp add: handleGamepadConnected_def obj_get_set)
  have next_tick: "changed (handleGamepadConnected g st) g'
          \<and> obj_get (prevTimestamps (checkGamepadInputs d (Some slots) (handleGamepadConnected g st)))
               (index g) = Some (timestamp g')
          \<and> obj_get (buttonStates (checkGamepadInputs d (Some slots) (handleGamepadConnected g st)))
               (index g) = Some (padButtons (buttons g'))
          \<and> obj_get (axisStates (checkGamepadInputs d (Some slots) (handleGamepadConnected g st)))
               (index g) = Some (padAxes d (axes g'))"
    if h: "distinctSlots slots \<and> Some g' \<in> set slots \<and> index g' = index g \<and> timestamp g' \<noteq> 0"
    for slots g'
  proof -
    from h have dist: "distinct (map index (presentPads slots))"
      and slot: "g' \<in> set (presentPads slots)"
      by (simp_all add: distinctSlots_def presentPads_set)
    from h own(2) have ch: "changed (handleGamepadConnected g st) g'"
      by (simp add: changed_def)
    from foldl_poll_slot [OF dist slot, of d "handleGamepadConnected g st"] ch h
    show ?thesis
      by (simp add: tick_foldl)
  qed
  from own others next_tick show ?thesis
    by blast
qed

theorem attach_resets_timestamp_witness:
  "distinctSlots [Some padOneLater, Some padTwo]
   \<and> timestamp padOneLater \<noteq> 0
   \<and> obj_get (prevTimestamps (handleGamepadConnected padOne initialStore)) 0 = Some 0
   \<and> obj_get (buttonStates (checkGamepadInputs (1 / 10) (Some [Some padOneLater, Some padTwo])
        (handleGamepadConnected padOne initialStore))) 0 = Some (padButtons (buttons padOneLater))"
proof -
  have h1: "distinctSlots [Some padOneLater, Some padTwo]"
    by (simp add: distinctSlots_def padOneLater_def padTwo_def)
  have h2: "Some padOneLater \<in> set [Some padOneLater, Some padTwo]"
    by simp
  have h3: "index padOneLater = index padOne" "timestamp padOneLater \<noteq> 0" "index padOne = 0"
    by (simp_all add: padOneLater_def padOne_def)
  note att = attach_resets_timestamp [of padOne initialStore "1 / 10"]
  from att h1 h2 h3(1,2)
  have "obj_get (buttonStates (checkGamepadInputs (1 / 10) (Some [Some padOneLater, Some padTwo])
        (handleGamepadConnected padOne initialStore))) (index padOne)
      = Some (padButtons (buttons padOneLater))"
    by blast
  moreover from att
  have "obj_get (prevTimestamps (handleGamepadConnected padOne initialStore)) (index padOne) = Some 0"
    by blast
  ultimately show ?thesis
    using h1 h3 by simp
qed

text \<open>
  Claim C8 as stated fails: after the attach of a device that reports the timestamp \<open>0\<close>,
  the next poll tick does not handle the device as changed and publishes nothing.
\<close>

theorem attach_idle_counterexample:
  "obj_get (prevTimestamps (handleGamepadConnected padIdle initialStore)) (index padIdle) = Some 0
   \<and> \<not> changed (handleGamepadConnected padIdle initialStore) padIdle
   \<and> checkGamepadInputs (1 / 10) (Some [Some padIdle]) (handleGamepadConnected padIdle initialStore)
       = handleGamepadConnected padIdle initialStore
   \<and> buttonStates (checkGamepadInputs (1 / 10) (Some [Some padIdle])
         (handleGamepadConnected padIdle initialStore)) = []
   \<and> axisStates (checkGamepadInputs (1 / 10) (Some [Some padIdle])
         (handleGamepadConnected padIdle initialStore)) = []"
  by (simp add: checkGamepadInputs_def getGamepads_def pollGamepad_def changed_def
      handleGamepadConnected_def initialStore_def padIdle_def obj_get_def)

text \<open>
  Claim C4, amended. In every store of a session whose poll ticks report only devices that
  have an entry in the device set (\<open>tracked\<close>), a slot has a button or an axis entry only
  if it has a device entry. The detach handler removes the slot's device entry, button
  entry, axis entry and stored timestamp together and leaves the other slots alone; on a
  slot with none of the four it leaves the four mappings unchanged.
\<close>

theorem detach_removes_slot:
  "(tracked d st \<longrightarrow>
      (\<forall>k. obj_get (buttonStates st) k \<noteq> None \<or> obj_get (axisStates st) k \<noteq> None
         \<longrightarrow> obj_get (gamepads st) k \<noteq> None))
   \<and> obj_get (gamepads (handleGamepadDisconnected h g st)) (index g) = None
   \<and> obj_get (buttonStates (handleGamepadDisconnected h g st)) (index g) = None
   \<and> obj_get (axisStates (handleGamepadDisconnected h g st)) (index g) = None
   \<and> obj_get (prevTimestamps (handleGamepadDisconnected h g st)) (index g) = None
   \<and> (\<forall>k. k \<noteq> index g \<longrightarrow>
          obj_get (gamepads (handleGamepadDisconnected h g st)) k = obj_get (gamepads st) k
        \<and> obj_get (buttonStates (handleGamepadDisconnected h g st)) k = obj_get (buttonStates st) k
        \<and> obj_get (axisStates (handleGamepadDisconnected h g st)) k = obj_get (axisStates st) k
        \<and> obj_get (prevTimestamps (handleGamepadDisconnected h g st)) k
            = obj_get (prevTimestamps st) k)
   \<and> (obj_get (gamepads st) (index g) = None \<and> obj_get (buttonStates st) (index g) = None
        \<and> obj_get (axisStates st) (index g) = None \<and> obj_get (prevTimestamps st) (index g) = None
      \<longrightarrow> gamepads (handleGamepadDisconnected h g st) = gamepads st
        \<and> buttonStates (handleGamepadDisconnected h g st) = buttonStates st
        \<and> axisStates (handleGamepadDisconnected h g st) = axisStates st
        \<and> prevTimestamps (handleGamepadDisconnected h g st) = prevTimestamps st)"
proof -
  have inv: "tracked d st \<longrightarrow>
      (\<forall>k. obj_get (buttonStates st) k \<noteq> None \<or> obj_get (axisStates st) k \<noteq> None
         \<longrightarrow> obj_get (gamepads st) k \<noteq> None)"
    using tracked_invariant by blast
  have gone: "obj_get (gamepads (handleGamepadDisconnected h g st)) (index g) = None"
    "obj_get (buttonStates (handleGamepadDisconnected h g st)) (index g) = None"
    "obj_get (axisStates (handleGamepadDisconnected h g st)) (index g) = None"
    "obj_get (prevTimestamps (handleGamepadDisconnected h g st)) (index g) = None"
    by (simp_all add: handleGamepadDisconnected_def obj_get_delete)
  have others: "\<forall>k. k \<noteq> index g \<longrightarrow>
          obj_get (gamepads (handleGamepadDisconnected h g st)) k = obj_get (gamepads st) k
        \<and> obj_get (buttonStates (handleGamepadDisconnected h g st)) k = obj_get (buttonStates st) k
        \<and> obj_get (axisStates (handleGamepadDisconnected h g st)) k = obj_get (axisStates st) k
        \<and> obj_get (prevTimestamps (handleGamepadDisconnected h g st)) k
            = obj_get (prevTimestamps st) k"
    by (simp add: handleGamepadDisconnected_def obj_get_delete)
  have noop: "obj_get (gamepads st) (index g) = None \<and> obj_get (buttonStates st) (index g) = None
        \<and> obj_get (axisStates st) (index g) = None \<and> obj_get (prevTimestamps st) (index g) = None
      \<longrightarrow> gamepads (handleGamepadDisconnected h g st) = gamepads st
        \<and> buttonStates (handleGamepadDisconnected h g st) = buttonStates st
        \<and> axisStates (handleGamepadDisconnected h g st) = axisStates st
        \<and> prevTimestamps (handleGamepadDisconnected h g st) = prevTimestamps st"
    by (simp add: handleGamepadDisconnected_def obj_delete_absent)
  from inv gone others noop show ?thesis
    by blast
qed

theorem detach_removes_slot_witness:
  "tracked (1 / 10) (checkGamepadInputs (1 / 10) (Some [Some padOne, Some padTwo])
      (handleGamepadConnected padTwo (initialScan (Some [Some padOne, None]) initialStore)))
   \<and> obj_get (gamepads (checkGamepadInputs (1 / 10) (Some [Some padOne, Some padTwo])
      (handleGamepadConnected padTwo (initialScan (Some [Some padOne, None]) initialStore)))) 1 \<noteq> None
   \<and> obj_get (buttonStates (checkGamepadInputs (1 / 10) (Some [Some padOne, Some padTwo])
      (handleGamepadConnected padTwo (initialScan (Some [Some padOne, None]) initialStore)))) 1 \<noteq> None
   \<and> obj_get (buttonStates (handleGamepadDisconnected (Some [Some padOne, None]) padTwo
      (checkGamepadInputs (1 / 10) (Some [Some padOne, Some padTwo])
      (handleGamepadConnected padTwo (initialScan (Some [Some padOne, None]) initialStore))))) 1 = None
   \<and> gamepads (handleGamepadDisconnected (Some [Some padOne, None]) padTwo
        (handleGamepadDisconnected (Some [Some padOne, None]) padTwo
      (checkGamepadInputs (1 / 10) (Some [Some padOne, Some padTwo])
      (handleGamepadConnected padTwo (initialScan (Some [Some padOne, None]) initialStore)))))
     = gamepads (handleGamepadDisconnected (Some [Some padOne, None]) padTwo
      (checkGamepadInputs (1 / 10) (Some [Some padOne, Some padTwo])
      (handleGamepadConnected padTwo (initialScan (Some [Some padOne, None]) initialStore))))"
proof -
  define s1 where "s1 = handleGamepadConnected padTwo (initialScan (Some [Some padOne, None]) initialStore)"
  define s2 where "s2 = checkGamepadInputs (1 / 10) (Some [Some padOne, Some padTwo]) s1"
  define s3 where "s3 = handleGamepadDisconnected (Some [Some padOne, None]) padTwo s2"
  have g1: "gamepads s1 = [(0, padOne), (1, padTwo)]"
    unfolding s1_def
    by (simp add: handleGamepadConnected_def initialScan_def getGamepads_def initialStore_def
        padOne_def padTwo_def)
  have t1: "tracked (1 / 10) s1"
    unfolding s1_def by (intro tracked.attach tracked.mount)
  have known: "\<forall>g. Some g \<in> set (getGamepads (Some [Some padOne, Some padTwo]))
      \<longrightarrow> obj_get (gamepads s1) (index g) \<noteq> None"
    by (auto simp: g1 getGamepads_def obj_get_def padOne_def padTwo_def)
  have t2: "tracked (1 / 10) s2"
    unfolding s2_def using t1 known by (rule tracked.tick)
  have b2: "obj_get (buttonStates s2) 1 \<noteq> None"
    unfolding s2_def s1_def by code_simp
  note at2 = detach_removes_slot [of "1 / 10" s2 "Some [Some padOne, None]" padTwo]
  note at3 = detach_removes_slot [of "1 / 10" s3 "Some [Some padOne, None]" padTwo]
  have i2: "index padTwo = 1"
    by (simp add: padTwo_def)
  from at2 t2 b2 have a: "obj_get (gamepads s2) 1 \<noteq> None"
    by blast
  from at2 have gone: "obj_get (gamepads s3) (index padTwo) = None"
    "obj_get (buttonStates s3) (index padTwo) = None"
    "obj_get (axisStates s3) (index padTwo) = None"
    "obj_get (prevTimestamps s3) (index padTwo) = None"
    unfolding s3_def by blast+
  from at3 gone have c: "gamepads (handleGamepadDisconnected (Some [Some padOne, None]) padTwo s3)
      = gamepads s3"
    by blast
  from gone(2) have b: "obj_get (buttonStates s3) 1 = None"
    by (simp add: i2)
  from t2 a b2 b c show ?thesis
    unfolding s3_def s2_def s1_def by blast
qed

text \<open>
  Claim C4 as stated fails: the poll tick never consults the device set, so a tick that
  reports a device before its attach event is handled publishes button and axis entries
  for a slot that has no device entry.
\<close>

theorem untracked_publish_counterexample:
  "reachable (1 / 10) (checkGamepadInputs (1 / 10) (Some [Some padOne])
      (initialScan (Some [None]) initialStore))
   \<and> obj_get (gamepads (checkGamepadInputs (1 / 10) (Some [Some padOne])
      (initialScan (Some [None]) initialStore))) 0 = None
   \<and> obj_get (buttonStates (checkGamepadInputs (1 / 10) (Some [Some padOne])
      (initialScan (Some [None]) initialStore))) 0
       = Some [(0, \<lparr>pressed = True, value' = 1, touched = True\<rparr>)]
   \<and> obj_get (axisStates (checkGamepadInputs (1 / 10) (Some [Some padOne])
      (initialScan (Some [None]) initialStore))) 0
       = Some [(0, 1 / 2), (1, 0), (2, 1173 / 5000), (3, 0), (4, 0)]"
proof -
  have "reachable (1 / 10) (checkGamepadInputs (1 / 10) (Some [Some padOne])
      (initialScan (Some [None]) initialStore))"
    by (intro reachable.tick reachable.mount)
  moreover have "obj_get (gamepads (checkGamepadInputs (1 / 10) (Some [Some padOne])
      (initialScan (Some [None]) initialStore))) 0 = None"
    by code_simp
  moreover have "obj_get (buttonStates (checkGamepadInputs (1 / 10) (Some [Some padOne])
      (initialScan (Some [None]) initialStore))) 0
       = Some [(0, \<lparr>pressed = True, value' = 1, touched = True\<rparr>)]"
    by code_simp
  moreover have "obj_get (axisStates (checkGamepadInputs (1 / 10) (Some [Some padOne])
      (initialScan (Some [None]) initialStore))) 0
       = Some [(0, 1 / 2), (1, 0), (2, 1173 / 5000), (3, 0), (4, 0)]"
    by code_simp
  ultimately show ?thesis by blast
qed

end
